theory Spec2Isabelle
  imports Main "HOL-Library.Multiset"
begin

section \<open>Data model (package models)\<close>

text \<open>
  Go's \<open>int\<close> fields and parameters (\<open>Quantity\<close>, \<open>threshold\<close>) are modelled as
  \<open>int\<close>: the code only compares them, it never does arithmetic on them, so no
  wrap-around can arise. \<open>uint\<close> identifiers are \<open>nat\<close> (only copied).
  \<open>time.Time\<close> is a count of nanoseconds. The \<open>float64\<close> price is only ever copied;
  it is carried as the hundredths of its \<open>decimal(10,2)\<close> column. The nullable
  \<open>DeletedAt\<close> pointer is an option.
\<close>

type_synonym Time = nat

record Product =
  ID :: nat
  Name :: string
  Description :: string
  Quantity :: int
  Price :: int
  Category :: string
  CreatedAt :: Time
  UpdatedAt :: Time
  DeletedAt :: "Time option"

record ProductResponse =
  ID :: nat
  Name :: string
  Description :: string
  Quantity :: int
  Price :: int
  Category :: string
  CreatedAt :: Time
  UpdatedAt :: Time
  StockStatus :: string

record ProductAlert =
  ProductID :: nat
  Name :: string
  Category :: string
  Quantity :: int
  Threshold :: int
  Severity :: string
  Message :: string
  GeneratedAt :: Time

section \<open>Stock classification\<close>

definition IsLowStock :: "Product \<Rightarrow> int \<Rightarrow> bool" where
  "IsLowStock p threshold = (Product.Quantity p < threshold)"

definition GetStockStatus :: "Product \<Rightarrow> int \<Rightarrow> int \<Rightarrow> string" where
  "GetStockStatus p lowThreshold criticalThreshold =
     (if Product.Quantity p = 0 then ''out_of_stock''
      else if Product.Quantity p \<le> criticalThreshold then ''critical''
      else if Product.Quantity p \<le> lowThreshold then ''low''
      else ''normal'')"

definition ToResponse :: "Product \<Rightarrow> ProductResponse" where
  "ToResponse p =
     \<lparr> ProductResponse.ID = Product.ID p,
       ProductResponse.Name = Product.Name p,
       ProductResponse.Description = Product.Description p,
       ProductResponse.Quantity = Product.Quantity p,
       ProductResponse.Price = Product.Price p,
       ProductResponse.Category = Product.Category p,
       ProductResponse.CreatedAt = Product.CreatedAt p,
       ProductResponse.UpdatedAt = Product.UpdatedAt p,
       StockStatus = GetStockStatus p 5 2 \<rparr>"

text \<open>
  \<open>GenerateAlert\<close> reads the wall clock (\<open>time.Now()\<close>); the reading is the explicit
  argument \<open>now\<close>. A \<open>nil\<close> result is \<open>None\<close>.
\<close>

definition GenerateAlert :: "Product \<Rightarrow> int \<Rightarrow> Time \<Rightarrow> ProductAlert option" where
  "GenerateAlert p threshold now =
     (if \<not> IsLowStock p threshold then None
      else
        let (severity, message) =
              (if Product.Quantity p = 0 then (''critical'', ''Product out of stock'')
               else if Product.Quantity p \<le> 2 then (''high'', ''Critical stock level'')
               else (''low'', ''Stock below threshold''))
        in Some \<lparr> ProductID = Product.ID p,
                  ProductAlert.Name = Product.Name p,
                  ProductAlert.Category = Product.Category p,
                  ProductAlert.Quantity = Product.Quantity p,
                  Threshold = threshold,
                  Severity = severity,
                  Message = message,
                  GeneratedAt = now \<rparr>)"

section \<open>Concurrent alert generation (package services)\<close>

text \<open>
  \<open>GenerateAlertsWithConcurrency\<close> starts one goroutine per product, one goroutine that
  waits on the \<open>sync.WaitGroup\<close> and closes \<open>alertsChan\<close>, and drains the channel in
  the calling goroutine. The model is an interleaving semantics: the state holds the
  program counter of every goroutine, the WaitGroup counter and the channel; one step
  runs one atomic action of one goroutine. Which goroutine runs next, and what the
  clock shows when a worker reaches \<open>time.Now()\<close>, is the scheduler's choice and is
  given from outside as a list of actions.
\<close>

text \<open>A worker: \<open>go func(p models.Product) { defer wg.Done(); ... }(product)\<close>.\<close>

datatype worker =
    Sleeping Product                \<comment> \<open>started, before \<open>p.GenerateAlert(threshold)\<close>\<close>
  | Sending Product ProductAlert    \<comment> \<open>alert is not nil, at \<open>alertsChan <- alert\<close>\<close>
  | Finishing Product               \<comment> \<open>at the deferred \<open>wg.Done()\<close>\<close>
  | Exited Product

text \<open>The calling goroutine: the dispatch loop over the products not yet handed
  out, then \<open>for alert := range alertsChan\<close>, then \<open>return alerts, nil\<close>.\<close>

datatype caller = Dispatch "Product list" | Drain | Returned

text \<open>The closing goroutine: \<open>go func() { wg.Wait(); close(alertsChan) }()\<close>.\<close>

datatype closer = NotStarted | Waiting | Closing | Closed

record gstate =
  main :: caller
  workers :: "worker list"
  wg :: nat                           \<comment> \<open>the WaitGroup counter\<close>
  chan_buf :: "ProductAlert list"     \<comment> \<open>buffer of \<open>alertsChan\<close>, oldest first\<close>
  chan_cap :: nat                     \<comment> \<open>its capacity, \<open>len(products)\<close>\<close>
  chan_closed :: bool
  closing :: closer
  alerts :: "ProductAlert list"       \<comment> \<open>the slice built by the range loop\<close>
  evaluated :: "Product list"         \<comment> \<open>log of the calls of \<open>GenerateAlert\<close> (not in the code)\<close>
  panicked :: bool                    \<comment> \<open>a runtime panic has stopped the process\<close>

definition init :: "Product list \<Rightarrow> gstate" where
  "init products =
     \<lparr> main = Dispatch products, workers = [], wg = 0, chan_buf = [],
       chan_cap = length products, chan_closed = False, closing = NotStarted,
       alerts = [], evaluated = [], panicked = False \<rparr>"

text \<open>
  One step of the caller. In the loop: \<open>wg.Add(1)\<close> and the \<open>go\<close> statement. After
  the loop: start the closing goroutine and enter the range loop. In the range loop:
  receive the oldest buffered alert and append it; on an empty buffer leave the loop if
  the channel is closed, block otherwise (\<open>None\<close>: the action is not enabled).
\<close>

definition main_step :: "gstate \<Rightarrow> gstate option" where
  "main_step s =
     (case main s of
        Dispatch [] \<Rightarrow> Some (s\<lparr>closing := Waiting, main := Drain\<rparr>)
      | Dispatch (p # rest) \<Rightarrow>
          Some (s\<lparr>wg := wg s + 1, workers := workers s @ [Sleeping p], main := Dispatch rest\<rparr>)
      | Drain \<Rightarrow>
          (case chan_buf s of
             a # rest \<Rightarrow> Some (s\<lparr>chan_buf := rest, alerts := alerts s @ [a]\<rparr>)
           | [] \<Rightarrow> if chan_closed s then Some (s\<lparr>main := Returned\<rparr>) else None)
      | Returned \<Rightarrow> None)"

text \<open>
  One step of worker \<open>i\<close>. Evaluation reads the clock (\<open>now\<close>). A send on a closed
  channel panics; otherwise it puts the alert into the buffer if there is room, hands it
  to the caller directly if the buffer has no room and the caller waits in the range
  loop (the unbuffered case), and blocks otherwise. \<open>wg.Done()\<close> on a zero counter
  panics.
\<close>

definition worker_step :: "int \<Rightarrow> nat \<Rightarrow> Time \<Rightarrow> gstate \<Rightarrow> gstate option" where
  "worker_step threshold i now s =
     (if length (workers s) \<le> i then None
      else case workers s ! i of
        Sleeping p \<Rightarrow>
          (case GenerateAlert p threshold now of
             None \<Rightarrow> Some (s\<lparr>workers := (workers s)[i := Finishing p],
                              evaluated := evaluated s @ [p]\<rparr>)
           | Some alert \<Rightarrow> Some (s\<lparr>workers := (workers s)[i := Sending p alert],
                                   evaluated := evaluated s @ [p]\<rparr>))
      | Sending p alert \<Rightarrow>
          if chan_closed s then Some (s\<lparr>panicked := True\<rparr>)
          else if length (chan_buf s) < chan_cap s
            then Some (s\<lparr>chan_buf := chan_buf s @ [alert], workers := (workers s)[i := Finishing p]\<rparr>)
          else if main s = Drain \<and> chan_buf s = []
            then Some (s\<lparr>alerts := alerts s @ [alert], workers := (workers s)[i := Finishing p]\<rparr>)
          else None
      | Finishing p \<Rightarrow>
          if wg s = 0 then Some (s\<lparr>panicked := True\<rparr>)
          else Some (s\<lparr>wg := wg s - 1, workers := (workers s)[i := Exited p]\<rparr>)
      | Exited p \<Rightarrow> None)"

text \<open>One step of the closing goroutine: \<open>wg.Wait()\<close> returns once the counter is
  zero; closing a closed channel panics.\<close>

definition closer_step :: "gstate \<Rightarrow> gstate option" where
  "closer_step s =
     (case closing s of
        NotStarted \<Rightarrow> None
      | Waiting \<Rightarrow> if wg s = 0 then Some (s\<lparr>closing := Closing\<rparr>) else None
      | Closing \<Rightarrow>
          if chan_closed s then Some (s\<lparr>panicked := True\<rparr>)
          else Some (s\<lparr>chan_closed := True, closing := Closed\<rparr>)
      | Closed \<Rightarrow> None)"

datatype action = MainStep | WorkerStep nat Time | CloserStep

definition step :: "int \<Rightarrow> action \<Rightarrow> gstate \<Rightarrow> gstate option" where
  "step threshold a s =
     (if panicked s then None
      else case a of
        MainStep \<Rightarrow> main_step s
      | WorkerStep i now \<Rightarrow> worker_step threshold i now s
      | CloserStep \<Rightarrow> closer_step s)"

text \<open>Running a schedule; \<open>None\<close> when it names an action that is not enabled.\<close>

fun exec :: "int \<Rightarrow> action list \<Rightarrow> gstate \<Rightarrow> gstate option" where
  "exec threshold [] s = Some s"
| "exec threshold (a # as) s =
     (case step threshold a s of None \<Rightarrow> None | Some s' \<Rightarrow> exec threshold as s')"

text \<open>
  What a call returns: the two Go results, and the log of evaluated products. The
  store query \<open>ps.db.Find(&products)\<close> is the argument \<open>fetch\<close>: the error's message or
  the rows. On a fetch error the function returns before any goroutine exists, so the
  schedule is not consulted. Otherwise the call returns under \<open>sched\<close> if \<open>sched\<close> is a
  run that ends with the caller at \<open>return alerts, nil\<close>; \<open>None\<close> stands for a schedule
  that is not a complete run of the program.
\<close>

record outcome =
  ret_alerts :: "ProductAlert list"
  ret_err :: "string option"
  ret_evaluated :: "Product list"

definition GenerateAlertsWithConcurrency ::
  "string + Product list \<Rightarrow> int \<Rightarrow> action list \<Rightarrow> outcome option" where
  "GenerateAlertsWithConcurrency fetch threshold sched =
     (let threshold = (if threshold \<le> 0 then 5 else threshold) in
      case fetch of
        Inl err \<Rightarrow>
          Some \<lparr> ret_alerts = [], ret_err = Some (''failed to fetch products: '' @ err),
                 ret_evaluated = [] \<rparr>
      | Inr products \<Rightarrow>
          (case exec threshold sched (init products) of
             None \<Rightarrow> None
           | Some s \<Rightarrow>
               if main s = Returned \<and> \<not> panicked s
               then Some \<lparr> ret_alerts = alerts s, ret_err = None, ret_evaluated = evaluated s \<rparr>
               else None))"

section \<open>Invariant of the concurrent run\<close>

text \<open>Alerts are compared up to the clock reading they carry.\<close>

definition strip :: "ProductAlert \<Rightarrow> ProductAlert" where
  "strip a = a\<lparr>GeneratedAt := 0\<rparr>"

text \<open>What a worker contributes to the counters of the invariant.\<close>

fun wprod :: "worker \<Rightarrow> Product" where
  "wprod (Sleeping p) = p"
| "wprod (Sending p a) = p"
| "wprod (Finishing p) = p"
| "wprod (Exited p) = p"

fun live :: "worker \<Rightarrow> nat" where
  "live (Exited p) = 0"
| "live w = 1"

fun unsent :: "worker \<Rightarrow> nat" where
  "unsent (Sleeping p) = 1"
| "unsent (Sending p a) = 1"
| "unsent w = 0"

fun pending :: "worker \<Rightarrow> ProductAlert multiset" where
  "pending (Sending p a) = {#strip a#}"
| "pending w = {#}"

fun called :: "worker \<Rightarrow> Product multiset" where
  "called (Sleeping p) = {#}"
| "called w = {#wprod w#}"

fun undispatched :: "caller \<Rightarrow> Product list" where
  "undispatched (Dispatch rest) = rest"
| "undispatched c = []"

text \<open>
  The invariant of a run on the snapshot \<open>products\<close>: no panic; the workers are the
  products handed out so far, in order; the WaitGroup counts the workers that have not
  exited; the closing goroutine exists once the dispatch loop is over and passes
  \<open>wg.Wait()\<close> only at counter zero; the channel is closed only by it; the alerts
  received, buffered and about to be sent are the alerts of the evaluated products and
  fit into the buffer.
\<close>

definition inv :: "int \<Rightarrow> Product list \<Rightarrow> gstate \<Rightarrow> bool" where
  "inv threshold products s =
     (\<not> panicked s \<and>
      map wprod (workers s) @ undispatched (main s) = products \<and>
      wg s = sum_list (map live (workers s)) \<and>
      chan_cap s = length products \<and>
      ((\<exists>rest. main s = Dispatch rest) = (closing s = NotStarted)) \<and>
      (closing s = Closing \<or> closing s = Closed \<longrightarrow> wg s = 0) \<and>
      (chan_closed s = (closing s = Closed)) \<and>
      (main s = Returned \<longrightarrow> chan_closed s \<and> chan_buf s = []) \<and>
      length (alerts s) + length (chan_buf s) + sum_list (map unsent (workers s))
        + length (undispatched (main s)) \<le> length products \<and>
      image_mset strip (mset (alerts s) + mset (chan_buf s)) + sum_list (map pending (workers s))
        = mset (List.map_filter (\<lambda>p. GenerateAlert p threshold 0) (evaluated s)) \<and>
      mset (evaluated s) = sum_list (map called (workers s)))"

section \<open>The seed data (scripts/seed)\<close>

text \<open>
  A product literal of the seed script gives \<open>Name\<close>, \<open>Description\<close>, \<open>Quantity\<close>,
  \<open>Price\<close> and \<open>Category\<close>; every other field has Go's zero value. Bytes outside ASCII
  (the UTF-8 encoding of the accented letters) are written by their code.
\<close>

definition seed_product :: "string \<Rightarrow> string \<Rightarrow> int \<Rightarrow> int \<Rightarrow> string \<Rightarrow> Product" where
  "seed_product name description quantity price category =
     \<lparr> Product.ID = 0, Name = name, Description = description, Quantity = quantity,
       Price = price, Category = category, CreatedAt = 0, UpdatedAt = 0, DeletedAt = None \<rparr>"

definition seed_products :: "Product list" where
  "seed_products =
    [ seed_product (''Laptop Dell XPS 13'')
       (''Laptop ultradelgada de 13 pulgadas con procesador Intel Core i7'')
       15 129999 ''Electronics'',
      seed_product (''iPhone 14 Pro'')
       (''Smartphone Apple con c'' @ [CHR 0xC3, CHR 0xA1] @ ''mara profesional de 48MP'')
       8 109999 ''Electronics'',
      seed_product (''Escritorio de Oficina'')
       (''Escritorio ergon'' @ [CHR 0xC3, CHR 0xB3] @ ''mico de madera con cajones'')
       25 29999 ''Furniture'',
      seed_product (''Silla Ejecutiva'')
       (''Silla ergon'' @ [CHR 0xC3, CHR 0xB3] @ ''mica con soporte lumbar y reposabrazos'')
       12 19999 ''Furniture'',
      seed_product (''Monitor 4K Samsung'')
       (''Monitor de 27 pulgadas con resoluci'' @ [CHR 0xC3, CHR 0xB3] @ ''n 4K UHD'')
       20 39999 ''Electronics'',
      seed_product (''Teclado Mec'' @ [CHR 0xC3, CHR 0xA1] @ ''nico'')
       (''Teclado mec'' @ [CHR 0xC3, CHR 0xA1] @ ''nico RGB para gaming con switches Cherry MX'')
       30 12999 ''Electronics'',
      seed_product (''Mouse Inal'' @ [CHR 0xC3, CHR 0xA1] @ ''mbrico'')
       (''Mouse ergon'' @ [CHR 0xC3, CHR 0xB3] @ ''mico inal'' @ [CHR 0xC3, CHR 0xA1] @ ''mbrico con sensor '' @ [CHR 0xC3, CHR 0xB3] @ ''ptico'')
       45 5999 ''Electronics'',
      seed_product (''L'' @ [CHR 0xC3, CHR 0xA1] @ ''mpara LED'')
       (''L'' @ [CHR 0xC3, CHR 0xA1] @ ''mpara de escritorio LED con control t'' @ [CHR 0xC3, CHR 0xA1] @ ''ctil'')
       18 7999 ''Lighting'',
      seed_product (''Cafetera Autom'' @ [CHR 0xC3, CHR 0xA1] @ ''tica'')
       (''Cafetera programable con molinillo integrado'')
       10 24999 ''Appliances'',
      seed_product (''Auriculares Bluetooth'')
       (''Auriculares inal'' @ [CHR 0xC3, CHR 0xA1] @ ''mbricos con cancelaci'' @ [CHR 0xC3, CHR 0xB3] @ ''n de ruido'')
       35 19999 ''Electronics'',
      seed_product (''Tablet iPad Pro'')
       (''Tablet profesional con pantalla Liquid Retina'')
       3 79999 ''Electronics'',
      seed_product (''Impresora L'' @ [CHR 0xC3, CHR 0xA1] @ ''ser'')
       (''Impresora l'' @ [CHR 0xC3, CHR 0xA1] @ ''ser multifunci'' @ [CHR 0xC3, CHR 0xB3] @ ''n para oficina'')
       2 34999 ''Office Equipment'',
      seed_product (''Webcam HD'')
       (''C'' @ [CHR 0xC3, CHR 0xA1] @ ''mara web Full HD para videoconferencias'')
       4 8999 ''Electronics'',
      seed_product (''Disco Duro SSD'')
       (''Disco s'' @ [CHR 0xC3, CHR 0xB3] @ ''lido de 1TB con interfaz SATA III'')
       1 14999 ''Electronics'',
      seed_product (''Router WiFi 6'')
       (''Router inal'' @ [CHR 0xC3, CHR 0xA1] @ ''mbrico de alta velocidad WiFi 6'')
       0 17999 ''Electronics'' ]"

text \<open>
  The script inserts the products one by one into the empty table; the rows read back
  carry the primary keys of the auto-increment column, here \<open>1\<close> to \<open>15\<close> in the order
  of insertion.
\<close>

definition seed_rows :: "Product list" where
  "seed_rows = map (\<lambda>(i, p). p\<lparr>Product.ID := i\<rparr>) (zip [1 ..< 16] seed_products)"

section \<open>Termination measure\<close>

text \<open>
  The number of steps a state can still take is bounded by \<open>steps_left\<close>: every step
  of every goroutine lowers it.
\<close>

fun weight :: "worker \<Rightarrow> nat" where
  "weight (Sleeping p) = 4"
| "weight (Sending p a) = 3"
| "weight (Finishing p) = 1"
| "weight (Exited p) = 0"

fun caller_left :: "caller \<Rightarrow> nat" where
  "caller_left (Dispatch rest) = 5 * length rest + 4"
| "caller_left Drain = 1"
| "caller_left Returned = 0"

fun closer_left :: "closer \<Rightarrow> nat" where
  "closer_left NotStarted = 2"
| "closer_left Waiting = 2"
| "closer_left Closing = 1"
| "closer_left Closed = 0"

definition steps_left :: "gstate \<Rightarrow> nat" where
  "steps_left s =
     caller_left (main s) + sum_list (map weight (workers s)) + length (chan_buf s)
       + closer_left (closing s) + (if panicked s then 0 else 1)"

section \<open>One run on the seed data\<close>

text \<open>
  A schedule for the fifteen seed rows: the caller hands out all products and starts the
  closing goroutine; the workers evaluate in order (the clock reads \<open>0\<close> each time); the
  five workers holding an alert send it; all workers call \<open>wg.Done()\<close>; the closing
  goroutine passes \<open>wg.Wait()\<close> and closes the channel; the caller receives the five
  alerts and returns. \<open>seed_outcome\<close> is what the call returns under this schedule.
\<close>

definition seed_schedule :: "action list" where
  "seed_schedule =
     replicate 15 MainStep @ [MainStep]
     @ map (\<lambda>i. WorkerStep i 0) [0 ..< 15]
     @ map (\<lambda>i. WorkerStep i 0) [10 ..< 15]
     @ map (\<lambda>i. WorkerStep i 0) [0 ..< 15]
     @ [CloserStep, CloserStep]
     @ replicate 5 MainStep @ [MainStep]"

definition seed_alerts :: "ProductAlert list" where
  "seed_alerts =
     [ \<lparr> ProductID = 11, Name = ''Tablet iPad Pro'', Category = ''Electronics'', Quantity = 3,
         Threshold = 5, Severity = ''low'', Message = ''Stock below threshold'', GeneratedAt = 0 \<rparr>,
       \<lparr> ProductID = 12, Name = ''Impresora L'' @ [CHR 0xC3, CHR 0xA1] @ ''ser'',
         Category = ''Office Equipment'', Quantity = 2,
         Threshold = 5, Severity = ''high'', Message = ''Critical stock level'', GeneratedAt = 0 \<rparr>,
       \<lparr> ProductID = 13, Name = ''Webcam HD'', Category = ''Electronics'', Quantity = 4,
         Threshold = 5, Severity = ''low'', Message = ''Stock below threshold'', GeneratedAt = 0 \<rparr>,
       \<lparr> ProductID = 14, Name = ''Disco Duro SSD'', Category = ''Electronics'', Quantity = 1,
         Threshold = 5, Severity = ''high'', Message = ''Critical stock level'', GeneratedAt = 0 \<rparr>,
       \<lparr> ProductID = 15, Name = ''Router WiFi 6'', Category = ''Electronics'', Quantity = 0,
         Threshold = 5, Severity = ''critical'', Message = ''Product out of stock'', GeneratedAt = 0 \<rparr> ]"

definition seed_outcome :: outcome where
  "seed_outcome = \<lparr> ret_alerts = seed_alerts, ret_err = None, ret_evaluated = seed_rows \<rparr>"

section \<open>Preservation of the invariant\<close>

lemma sum_list_map_update:
  fixes f :: "'a \<Rightarrow> 'b::comm_monoid_add"
  shows "i < length xs \<Longrightarrow> sum_list (map f (xs[i := y])) + f (xs ! i) = sum_list (map f xs) + f y"
proof (induction xs arbitrary: i)
  case Nil
  then show ?case by simp
next
  case (Cons x xs)
  show ?case
  proof (cases i)
    case 0
    then show ?thesis by (simp add: ac_simps)
  next
    case (Suc j)
    with Cons.prems have "j < length xs" by simp
    from Cons.IH[OF this] Suc show ?thesis by (simp add: ac_simps)
  qed
qed

lemma map_wprod_update:
  "i < length ws \<Longrightarrow> wprod w = wprod (ws ! i) \<Longrightarrow> map wprod (ws[i := w]) = map wprod ws"
  by (simp add: map_update list_update_same_conv)

lemma GenerateAlert_strip:
  "GenerateAlert p threshold now = Some a \<Longrightarrow> GenerateAlert p threshold 0 = Some (strip a)"
  by (auto simp: GenerateAlert_def strip_def Let_def split: if_splits)

lemma GenerateAlert_None:
  "GenerateAlert p threshold now = None \<Longrightarrow> GenerateAlert p threshold 0 = None"
  by (auto simp: GenerateAlert_def Let_def split: if_splits)

lemma inv_init: "inv threshold products (init products)"
  by (simp add: inv_def init_def List.map_filter_simps)

lemma inv_main_step:
  assumes "inv threshold products s" "main_step s = Some s'"
  shows "inv threshold products s'"
  using assms
  by (auto simp: inv_def main_step_def split: caller.splits list.splits if_splits)

lemma inv_closer_step:
  assumes "inv threshold products s" "closer_step s = Some s'"
  shows "inv threshold products s'"
  using assms
  by (auto simp: inv_def closer_step_def split: closer.splits if_splits)


lemma live_le_sum: "i < length ws \<Longrightarrow> live (ws ! i) \<le> sum_list (map live ws)"
  using member_le_sum_list[of "live (ws ! i)" "map live ws"] by simp

lemma unsent_le_sum: "i < length ws \<Longrightarrow> unsent (ws ! i) \<le> sum_list (map unsent ws)"
  using member_le_sum_list[of "unsent (ws ! i)" "map unsent ws"] by simp


lemma map_filter_snoc:
  "List.map_filter f (xs @ [x]) = List.map_filter f xs @ (case f x of None \<Rightarrow> [] | Some y \<Rightarrow> [y])"
  by (simp add: List.map_filter_def split: option.splits)

lemma invD:
  assumes "inv threshold products s"
  shows inv_panicked: "\<not> panicked s"
    and inv_products: "map wprod (workers s) @ undispatched (main s) = products"
    and inv_wg: "wg s = sum_list (map live (workers s))"
    and inv_cap: "chan_cap s = length products"
    and inv_closing: "(\<exists>rest. main s = Dispatch rest) = (closing s = NotStarted)"
    and inv_wg0: "closing s = Closing \<or> closing s = Closed \<longrightarrow> wg s = 0"
    and inv_closed: "chan_closed s = (closing s = Closed)"
    and inv_returned: "main s = Returned \<longrightarrow> chan_closed s \<and> chan_buf s = []"
    and inv_room: "length (alerts s) + length (chan_buf s) + sum_list (map unsent (workers s))
        + length (undispatched (main s)) \<le> length products"
    and inv_alerts: "image_mset strip (mset (alerts s) + mset (chan_buf s))
        + sum_list (map pending (workers s))
        = mset (List.map_filter (\<lambda>p. GenerateAlert p threshold 0) (evaluated s))"
    and inv_evaluated: "mset (evaluated s) = sum_list (map called (workers s))"
  using assms unfolding inv_def by blast+

lemma inv_worker_eval:
  assumes I: "inv threshold products s" and i: "i < length (workers s)"
    and w: "workers s ! i = Sleeping p"
    and w': "w' = (case GenerateAlert p threshold now of None \<Rightarrow> Finishing p | Some a \<Rightarrow> Sending p a)"
  shows "inv threshold products (s\<lparr>workers := (workers s)[i := w'], evaluated := evaluated s @ [p]\<rparr>)"
proof -
  have P: "wprod w' = p" using w' by (simp split: option.splits)
  have L: "live w' = 1" using w' by (simp split: option.splits)
  have U: "unsent w' \<le> 1" using w' by (simp split: option.splits)
  have C: "called w' = {#p#}" using w' by (simp split: option.splits)
  have 1: "map wprod ((workers s)[i := w']) = map wprod (workers s)"
    using i w P by (simp add: map_wprod_update)
  have 2: "sum_list (map live ((workers s)[i := w'])) = sum_list (map live (workers s))"
    using sum_list_map_update[OF i, of live w'] w L by simp
  have 3: "sum_list (map unsent ((workers s)[i := w'])) \<le> sum_list (map unsent (workers s))"
    using sum_list_map_update[OF i, of unsent w'] w U by simp
  have 4: "sum_list (map called ((workers s)[i := w'])) = sum_list (map called (workers s)) + {#p#}"
    using sum_list_map_update[OF i, of called w'] w C by simp
  have 5: "sum_list (map pending ((workers s)[i := w']))
      = sum_list (map pending (workers s)) + mset (case GenerateAlert p threshold 0 of None \<Rightarrow> [] | Some y \<Rightarrow> [y])"
    using sum_list_map_update[OF i, of pending w'] w w'
    by (auto simp: GenerateAlert_strip GenerateAlert_None split: option.splits)
  note J = inv_alerts[OF I, symmetric] and E = inv_evaluated[OF I]
  show ?thesis
    unfolding inv_def
    using inv_panicked[OF I] inv_products[OF I] inv_wg[OF I] inv_cap[OF I] inv_closing[OF I]
      inv_wg0[OF I] inv_closed[OF I] inv_returned[OF I] inv_room[OF I] 3
    by (simp add: 1 2 4 5 E J map_filter_snoc)
qed

lemma inv_worker_send:
  assumes I: "inv threshold products s" and i: "i < length (workers s)"
    and w: "workers s ! i = Sending p a"
  shows "\<not> chan_closed s" and "length (chan_buf s) < chan_cap s"
    and "inv threshold products
           (s\<lparr>chan_buf := chan_buf s @ [a], workers := (workers s)[i := Finishing p]\<rparr>)"
proof -
  have lv: "1 \<le> wg s" using live_le_sum[OF i] w inv_wg[OF I] by simp
  then show nc: "\<not> chan_closed s" using inv_wg0[OF I] inv_closed[OF I] by auto
  have us: "1 \<le> sum_list (map unsent (workers s))" using unsent_le_sum[OF i] w by simp
  then show "length (chan_buf s) < chan_cap s" using inv_room[OF I] inv_cap[OF I] by simp
  have 1: "map wprod ((workers s)[i := Finishing p]) = map wprod (workers s)"
    using i w by (simp add: map_wprod_update)
  have 2: "sum_list (map live ((workers s)[i := Finishing p])) = sum_list (map live (workers s))"
    using sum_list_map_update[OF i, of live "Finishing p"] w by simp
  have 3: "sum_list (map unsent (workers s)) = sum_list (map unsent ((workers s)[i := Finishing p])) + 1"
    using sum_list_map_update[OF i, of unsent "Finishing p"] w by simp
  have 4: "sum_list (map called ((workers s)[i := Finishing p])) = sum_list (map called (workers s))"
    using sum_list_map_update[OF i, of called "Finishing p"] w by simp
  have 5: "sum_list (map pending (workers s)) = sum_list (map pending ((workers s)[i := Finishing p])) + {#strip a#}"
    using sum_list_map_update[OF i, of pending "Finishing p"] w by simp
  have ret: "main s \<noteq> Returned" using inv_returned[OF I] nc by auto
  note J = inv_alerts[OF I, symmetric] and E = inv_evaluated[OF I]
  show "inv threshold products
          (s\<lparr>chan_buf := chan_buf s @ [a], workers := (workers s)[i := Finishing p]\<rparr>)"
    unfolding inv_def
    using inv_panicked[OF I] inv_products[OF I] inv_wg[OF I] inv_cap[OF I] inv_closing[OF I]
      inv_wg0[OF I] inv_closed[OF I] ret inv_room[OF I] 3
    by (simp add: 1 2 4 E J 5)
qed

lemma inv_worker_done:
  assumes I: "inv threshold products s" and i: "i < length (workers s)"
    and w: "workers s ! i = Finishing p"
  shows "wg s \<noteq> 0"
    and "inv threshold products (s\<lparr>wg := wg s - 1, workers := (workers s)[i := Exited p]\<rparr>)"
proof -
  have lv: "1 \<le> wg s" using live_le_sum[OF i] w inv_wg[OF I] by simp
  then show "wg s \<noteq> 0" by simp
  have 1: "map wprod ((workers s)[i := Exited p]) = map wprod (workers s)"
    using i w by (simp add: map_wprod_update)
  have 2: "sum_list (map live (workers s)) = sum_list (map live ((workers s)[i := Exited p])) + 1"
    using sum_list_map_update[OF i, of live "Exited p"] w by simp
  have 3: "sum_list (map unsent ((workers s)[i := Exited p])) = sum_list (map unsent (workers s))"
    using sum_list_map_update[OF i, of unsent "Exited p"] w by simp
  have 4: "sum_list (map called ((workers s)[i := Exited p])) = sum_list (map called (workers s))"
    using sum_list_map_update[OF i, of called "Exited p"] w by simp
  have 5: "sum_list (map pending ((workers s)[i := Exited p])) = sum_list (map pending (workers s))"
    using sum_list_map_update[OF i, of pending "Exited p"] w by simp
  have cl: "closing s \<noteq> Closing" "closing s \<noteq> Closed" using inv_wg0[OF I] lv by auto
  have wg': "wg s - 1 = sum_list (map live ((workers s)[i := Exited p]))"
    using inv_wg[OF I] 2 by simp
  show "inv threshold products (s\<lparr>wg := wg s - 1, workers := (workers s)[i := Exited p]\<rparr>)"
    unfolding inv_def
    using inv_panicked[OF I] inv_products[OF I] inv_cap[OF I] inv_closing[OF I]
      inv_closed[OF I] inv_returned[OF I] inv_room[OF I] inv_alerts[OF I] inv_evaluated[OF I] cl wg'
    by (simp add: 1 3 4 5)
qed

lemma inv_worker_step:
  assumes I: "inv threshold products s" and st: "worker_step threshold i now s = Some s'"
  shows "inv threshold products s'"
proof -
  from st have i: "i < length (workers s)"
    by (simp add: worker_step_def split: if_splits)
  show ?thesis
  proof (cases "workers s ! i")
    case (Sleeping p)
    with st i have "s' = s\<lparr>workers := (workers s)[i := (case GenerateAlert p threshold now of None \<Rightarrow> Finishing p | Some a \<Rightarrow> Sending p a)],
        evaluated := evaluated s @ [p]\<rparr>"
      by (auto simp: worker_step_def split: option.splits)
    then show ?thesis using inv_worker_eval[OF I i Sleeping refl] by simp
  next
    case (Sending p a)
    note S = inv_worker_send[OF I i Sending]
    from st i Sending S(1) S(2)
    have "s' = s\<lparr>chan_buf := chan_buf s @ [a], workers := (workers s)[i := Finishing p]\<rparr>"
      by (simp add: worker_step_def)
    then show ?thesis using S(3) by simp
  next
    case (Finishing p)
    note D = inv_worker_done[OF I i Finishing]
    from st i Finishing D(1)
    have "s' = s\<lparr>wg := wg s - 1, workers := (workers s)[i := Exited p]\<rparr>"
      by (simp add: worker_step_def)
    then show ?thesis using D(2) by simp
  next
    case (Exited p)
    with st i show ?thesis by (simp add: worker_step_def)
  qed
qed

lemma inv_step:
  assumes "inv threshold products s" and "step threshold a s = Some s'"
  shows "inv threshold products s'"
proof (cases a)
  case MainStep
  with assms show ?thesis by (simp add: step_def inv_main_step split: if_splits)
next
  case (WorkerStep i now)
  with assms show ?thesis by (simp add: step_def inv_worker_step split: if_splits)
next
  case CloserStep
  with assms show ?thesis by (simp add: step_def inv_closer_step split: if_splits)
qed

lemma inv_exec:
  "inv threshold products s \<Longrightarrow> exec threshold sched s = Some s' \<Longrightarrow> inv threshold products s'"
proof (induction sched arbitrary: s)
  case Nil
  then show ?case by simp
next
  case (Cons a sched)
  from Cons.prems(2) obtain s1 where s1: "step threshold a s = Some s1"
    and rest: "exec threshold sched s1 = Some s'"
    by (auto split: option.splits)
  from inv_step[OF Cons.prems(1) s1] rest show ?case by (rule Cons.IH)
qed

section \<open>Every run is finite and none is stuck\<close>

lemma main_step_less: "main_step s = Some s' \<Longrightarrow> \<not> panicked s \<Longrightarrow> steps_left s' < steps_left s"
  by (auto simp: main_step_def steps_left_def split: caller.splits list.splits if_splits closer.splits)

lemma closer_step_less: "closer_step s = Some s' \<Longrightarrow> \<not> panicked s \<Longrightarrow> steps_left s' < steps_left s"
  by (auto simp: closer_step_def steps_left_def split: closer.splits if_splits)

lemma weight_update:
  assumes "i < length ws" and "weight w + k = weight (ws ! i)"
  shows "sum_list (map weight (ws[i := w])) + k = sum_list (map weight ws)"
  using sum_list_map_update[OF assms(1), of weight w] assms(2) by simp

lemma worker_step_less:
  assumes st: "worker_step threshold i now s = Some s'" and np: "\<not> panicked s"
  shows "steps_left s' < steps_left s"
proof -
  from st have i: "i < length (workers s)"
    by (simp add: worker_step_def split: if_splits)
  show ?thesis
  proof (cases "workers s ! i")
    case (Sleeping p)
    show ?thesis
    proof (cases "GenerateAlert p threshold now")
      case None
      with st i Sleeping have s': "s' = s\<lparr>workers := (workers s)[i := Finishing p], evaluated := evaluated s @ [p]\<rparr>"
        by (simp add: worker_step_def)
      from weight_update[OF i, of "Finishing p" 3] Sleeping
      show ?thesis by (simp add: s' steps_left_def)
    next
      case (Some a)
      with st i Sleeping have s': "s' = s\<lparr>workers := (workers s)[i := Sending p a], evaluated := evaluated s @ [p]\<rparr>"
        by (simp add: worker_step_def)
      from weight_update[OF i, of "Sending p a" 1] Sleeping
      show ?thesis by (simp add: s' steps_left_def)
    qed
  next
    case (Sending p a)
    from weight_update[OF i, of "Finishing p" 2] Sending
    have w: "sum_list (map weight ((workers s)[i := Finishing p])) + 2 = sum_list (map weight (workers s))"
      by simp
    from st i Sending np w show ?thesis
      by (auto simp: worker_step_def steps_left_def split: if_splits)
  next
    case (Finishing p)
    from weight_update[OF i, of "Exited p" 1] Finishing
    have w: "sum_list (map weight ((workers s)[i := Exited p])) + 1 = sum_list (map weight (workers s))"
      by simp
    from st i Finishing np w show ?thesis
      by (auto simp: worker_step_def steps_left_def split: if_splits)
  next
    case (Exited p)
    with st i show ?thesis by (simp add: worker_step_def)
  qed
qed

lemma step_less: "step threshold a s = Some s' \<Longrightarrow> steps_left s' < steps_left s"
  by (cases a) (auto simp: step_def main_step_less worker_step_less closer_step_less split: if_splits)

lemma exec_length:
  "exec threshold sched s = Some s' \<Longrightarrow> steps_left s' + length sched \<le> steps_left s"
proof (induction sched arbitrary: s)
  case Nil
  then show ?case by simp
next
  case (Cons a sched)
  from Cons.prems obtain s1 where s1: "step threshold a s = Some s1"
    and rest: "exec threshold sched s1 = Some s'"
    by (auto split: option.splits)
  from Cons.IH[OF rest] step_less[OF s1] show ?case by simp
qed

lemma some_live:
  assumes "sum_list (map live ws) \<noteq> 0"
  shows "\<exists>i < length ws. live (ws ! i) \<noteq> 0"
proof (rule ccontr)
  assume "\<not> ?thesis"
  then have "\<forall>w \<in> set ws. live w = 0" by (auto simp: in_set_conv_nth)
  then have "sum_list (map live ws) = 0" by (induction ws) auto
  with assms show False by simp
qed

lemma progress:
  assumes I: "inv threshold products s" and nr: "main s \<noteq> Returned"
  shows "\<exists>a s'. step threshold a s = Some s'"
proof -
  note np = inv_panicked[OF I]
  show ?thesis
  proof (cases "main_step s")
    case (Some s')
    with np have "step threshold MainStep s = Some s'" by (simp add: step_def)
    then show ?thesis by blast
  next
    case None
    with nr have dr: "main s = Drain" and be: "chan_buf s = []" and nc: "\<not> chan_closed s"
      by (auto simp: main_step_def split: caller.splits list.splits if_splits)
    from dr inv_closing[OF I] have ns: "closing s \<noteq> NotStarted" by auto
    from nc inv_closed[OF I] have ncl: "closing s \<noteq> Closed" by simp
    show ?thesis
    proof (cases "wg s = 0")
      case True
      with ns ncl nc obtain s' where "closer_step s = Some s'"
        by (cases "closing s") (auto simp: closer_step_def)
      with np have "step threshold CloserStep s = Some s'" by (simp add: step_def)
      then show ?thesis by blast
    next
      case False
      with inv_wg[OF I] some_live[of "workers s"]
      obtain i where i: "i < length (workers s)" and lv: "live (workers s ! i) \<noteq> 0" by auto
      have "\<exists>s'. worker_step threshold i 0 s = Some s'"
      proof (cases "workers s ! i")
        case (Sleeping p)
        with i show ?thesis by (simp add: worker_step_def split: option.splits)
      next
        case (Sending p a)
        with i inv_worker_send(2)[OF I i Sending] nc show ?thesis by (simp add: worker_step_def)
      next
        case (Finishing p)
        with i show ?thesis by (simp add: worker_step_def)
      next
        case (Exited p)
        with lv show ?thesis by simp
      qed
      then obtain s' where "worker_step threshold i 0 s = Some s'" ..
      with np have "step threshold (WorkerStep i 0) s = Some s'" by (simp add: step_def)
      then show ?thesis by blast
    qed
  qed
qed

lemma completes:
  assumes "inv threshold products s"
  shows "\<exists>sched s'. exec threshold sched s = Some s' \<and> main s' = Returned"
  using assms
proof (induction "steps_left s" arbitrary: s rule: less_induct)
  case less
  show ?case
  proof (cases "main s = Returned")
    case True
    then have "exec threshold [] s = Some s \<and> main s = Returned" by simp
    then show ?thesis by blast
  next
    case False
    from progress[OF less.prems False] obtain a s1 where st: "step threshold a s = Some s1" by blast
    from less.hyps[OF step_less[OF st] inv_step[OF less.prems st]]
    obtain sched s' where "exec threshold sched s1 = Some s'" "main s' = Returned" by blast
    with st have "exec threshold (a # sched) s = Some s' \<and> main s' = Returned" by simp
    then show ?thesis by blast
  qed
qed

section \<open>What a returning run has computed\<close>

lemma exited_sums:
  assumes "sum_list (map live ws) = 0"
  shows "sum_list (map pending ws) = {#}" and "sum_list (map called ws) = mset (map wprod ws)"
proof -
  from assms have "\<forall>w \<in> set ws. \<exists>p. w = Exited p"
  proof (induction ws)
    case Nil
    then show ?case by simp
  next
    case (Cons w ws)
    then show ?case by (cases w) auto
  qed
  then show "sum_list (map pending ws) = {#}" and "sum_list (map called ws) = mset (map wprod ws)"
    by (induction ws) auto
qed

lemma mset_map_filter:
  "mset (List.map_filter f xs) = image_mset (the \<circ> f) (filter_mset (\<lambda>x. f x \<noteq> None) (mset xs))"
  by (simp add: List.map_filter_def)

lemma returned_state:
  assumes I: "inv threshold products s" and r: "main s = Returned"
  shows "mset (evaluated s) = mset products"
    and "image_mset strip (mset (alerts s))
           = mset (List.map_filter (\<lambda>p. GenerateAlert p threshold 0) products)"
    and "map wprod (workers s) = products"
    and "sum_list (map live (workers s)) = 0"
proof -
  from inv_returned[OF I] r have c: "chan_closed s" and b: "chan_buf s = []" by simp_all
  from c inv_closed[OF I] inv_wg0[OF I] inv_wg[OF I]
  show z: "sum_list (map live (workers s)) = 0" by simp
  from inv_products[OF I] r show ps: "map wprod (workers s) = products" by simp
  from inv_evaluated[OF I] exited_sums(2)[OF z] ps
  show e: "mset (evaluated s) = mset products" by simp
  from inv_alerts[OF I] exited_sums(1)[OF z] b
  have "image_mset strip (mset (alerts s))
      = mset (List.map_filter (\<lambda>p. GenerateAlert p threshold 0) (evaluated s))" by simp
  also have "\<dots> = mset (List.map_filter (\<lambda>p. GenerateAlert p threshold 0) products)"
    by (simp only: mset_map_filter e)
  finally show "image_mset strip (mset (alerts s))
           = mset (List.map_filter (\<lambda>p. GenerateAlert p threshold 0) products)" .
qed

lemma generate_run:
  assumes "GenerateAlertsWithConcurrency (Inr products) threshold sched = Some r"
  shows "\<exists>s. exec (if threshold \<le> 0 then 5 else threshold) sched (init products) = Some s
           \<and> main s = Returned \<and> \<not> panicked s
           \<and> r = \<lparr> ret_alerts = alerts s, ret_err = None, ret_evaluated = evaluated s \<rparr>"
  using assms
  by (auto simp: GenerateAlertsWithConcurrency_def Let_def split: option.splits if_splits)

lemma generate_result:
  assumes G: "GenerateAlertsWithConcurrency (Inr products) threshold sched = Some r"
  shows "ret_err r = None"
    and "mset (ret_evaluated r) = mset products"
    and "image_mset strip (mset (ret_alerts r))
           = mset (List.map_filter (\<lambda>p. GenerateAlert p (if threshold \<le> 0 then 5 else threshold) 0) products)"
proof -
  from generate_run[OF G] obtain s
    where ex: "exec (if threshold \<le> 0 then 5 else threshold) sched (init products) = Some s"
      and ret: "main s = Returned"
      and r: "r = \<lparr> ret_alerts = alerts s, ret_err = None, ret_evaluated = evaluated s \<rparr>"
    by blast
  have I: "inv (if threshold \<le> 0 then 5 else threshold) products s"
    using inv_exec[OF inv_init ex] .
  show "ret_err r = None" by (simp add: r)
  show "mset (ret_evaluated r) = mset products"
    using returned_state(1)[OF I ret] by (simp add: r)
  show "image_mset strip (mset (ret_alerts r))
           = mset (List.map_filter (\<lambda>p. GenerateAlert p (if threshold \<le> 0 then 5 else threshold) 0) products)"
    using returned_state(2)[OF I ret] by (simp add: r)
qed

lemma generate_returns:
  "\<exists>sched r. GenerateAlertsWithConcurrency fetch threshold sched = Some r"
proof (cases fetch)
  case (Inl e)
  then show ?thesis by (simp add: GenerateAlertsWithConcurrency_def)
next
  case (Inr products)
  let ?t = "if threshold \<le> 0 then 5 else threshold"
  from completes[OF inv_init, of ?t products] obtain sched s
    where ex: "exec ?t sched (init products) = Some s" and ret: "main s = Returned" by blast
  from inv_panicked[OF inv_exec[OF inv_init ex]] have "\<not> panicked s" .
  with ex ret Inr
  have "GenerateAlertsWithConcurrency fetch threshold sched
      = Some \<lparr> ret_alerts = alerts s, ret_err = None, ret_evaluated = evaluated s \<rparr>"
    by (simp add: GenerateAlertsWithConcurrency_def)
  then show ?thesis by blast
qed

lemma steps_left_init: "steps_left (init products) = 5 * length products + 7"
  by (simp add: steps_left_def init_def)

lemma map_filter_alert_ids:
  "map ProductID (List.map_filter (\<lambda>p. GenerateAlert p threshold now) products)
     = map Product.ID (filter (\<lambda>p. Product.Quantity p < threshold) products)"
  by (induction products)
     (auto simp: List.map_filter_simps GenerateAlert_def IsLowStock_def Let_def split: option.splits if_splits)

lemma ProductID_strip: "ProductID (strip a) = ProductID a"
  by (simp add: strip_def)

lemma generate_ids:
  assumes G: "GenerateAlertsWithConcurrency (Inr products) threshold sched = Some r"
  shows "mset (map ProductID (ret_alerts r))
     = mset (map Product.ID (filter (\<lambda>p. Product.Quantity p < (if threshold \<le> 0 then 5 else threshold)) products))"
proof -
  have "mset (map ProductID (ret_alerts r)) = image_mset ProductID (image_mset strip (mset (ret_alerts r)))"
    by (simp add: image_mset.compositionality comp_def ProductID_strip)
  also have "\<dots> = mset (map ProductID (List.map_filter (\<lambda>p. GenerateAlert p (if threshold \<le> 0 then 5 else threshold) 0) products))"
    by (simp only: generate_result(3)[OF G] mset_map)
  finally show ?thesis by (simp only: map_filter_alert_ids)
qed

lemma generate_count:
  assumes G: "GenerateAlertsWithConcurrency (Inr products) threshold sched = Some r"
  shows "length (ret_alerts r)
     = length (filter (\<lambda>p. Product.Quantity p < (if threshold \<le> 0 then 5 else threshold)) products)"
  using mset_eq_length[OF generate_ids[OF G]] by simp

lemma workers_exited:
  "sum_list (map live ws) = 0 \<Longrightarrow> ws = map Exited (map wprod ws)"
proof (induction ws)
  case Nil
  then show ?case by simp
next
  case (Cons w ws)
  then show ?case by (cases w) auto
qed

lemma GenerateAlert_fields:
  assumes "GenerateAlert p threshold now = Some a"
  shows "ProductID a = Product.ID p" and "ProductAlert.Name a = Product.Name p"
    and "ProductAlert.Category a = Product.Category p"
    and "ProductAlert.Quantity a = Product.Quantity p"
    and "Threshold a = threshold" and "GeneratedAt a = now"
  using assms by (auto simp: GenerateAlert_def Let_def split: if_splits)

lemma strip_fields:
  "ProductAlert.Name (strip a) = ProductAlert.Name a"
  "ProductAlert.Category (strip a) = ProductAlert.Category a"
  "ProductAlert.Quantity (strip a) = ProductAlert.Quantity a"
  "Threshold (strip a) = Threshold a"
  by (simp_all add: strip_def)

lemma generate_alert_source:
  assumes G: "GenerateAlertsWithConcurrency (Inr products) threshold sched = Some r"
    and a: "a \<in> set (ret_alerts r)"
  shows "\<exists>p \<in> set products.
           GenerateAlert p (if threshold \<le> 0 then 5 else threshold) 0 = Some (strip a)"
proof -
  from a have "strip a \<in># image_mset strip (mset (ret_alerts r))" by simp
  then have "strip a \<in> set (List.map_filter (\<lambda>p. GenerateAlert p (if threshold \<le> 0 then 5 else threshold) 0) products)"
    by (simp only: generate_result(3)[OF G] set_mset_mset)
  then show ?thesis by (auto simp: List.map_filter_def)
qed

section \<open>The seed run, evaluated\<close>

lemma seed_run:
  "GenerateAlertsWithConcurrency (Inr seed_rows) 5 seed_schedule = Some seed_outcome"
  by code_simp

lemma seed_quantities:
  "map Product.Quantity seed_rows = [15, 8, 25, 12, 20, 30, 45, 18, 10, 35, 3, 2, 4, 1, 0]"
  by code_simp

lemma seed_ids: "map Product.ID seed_rows = [1, 2, 3, 4, 5, 6, 7, 8, 9, 10, 11, 12, 13, 14, 15]"
  by code_simp

lemma printer_quantity: "Product.Quantity (seed_rows ! 11) = 2"
  by code_simp

lemma router_quantity: "Product.Quantity (seed_rows ! 14) = 0"
  by code_simp

section \<open>The alert evaluator\<close>

text \<open>
  C1. For a product with quantity at least 0 and a threshold above 0, \<open>GenerateAlert\<close>
  returns no alert when quantity is at least the threshold, a \<open>critical\<close> alert "Product
  out of stock" at quantity 0, a \<open>high\<close> alert "Critical stock level" when quantity is 1
  or 2 and below the threshold, and a \<open>low\<close> alert "Stock below threshold" when quantity
  is above 2 and below the threshold.
\<close>

theorem GenerateAlert_bands:
  assumes "0 \<le> Product.Quantity p" and "0 < threshold"
  shows "(threshold \<le> Product.Quantity p \<longrightarrow> GenerateAlert p threshold now = None) \<and>
    (Product.Quantity p = 0 \<longrightarrow>
       (\<exists>a. GenerateAlert p threshold now = Some a \<and> Severity a = ''critical''
            \<and> Message a = ''Product out of stock'')) \<and>
    (0 < Product.Quantity p \<and> Product.Quantity p \<le> 2 \<and> Product.Quantity p < threshold \<longrightarrow>
       (\<exists>a. GenerateAlert p threshold now = Some a \<and> Severity a = ''high''
            \<and> Message a = ''Critical stock level'')) \<and>
    (2 < Product.Quantity p \<and> Product.Quantity p < threshold \<longrightarrow>
       (\<exists>a. GenerateAlert p threshold now = Some a \<and> Severity a = ''low''
            \<and> Message a = ''Stock below threshold''))"
  using assms by (simp add: GenerateAlert_def IsLowStock_def)

text \<open>The seed printer (quantity 2) at threshold 5 gets a \<open>high\<close> alert.\<close>

theorem GenerateAlert_bands_witness:
  "\<exists>a. GenerateAlert (seed_rows ! 11) 5 0 = Some a \<and> Severity a = ''high''
       \<and> Message a = ''Critical stock level''"
  using GenerateAlert_bands[of "seed_rows ! 11" 5 0] by (simp add: printer_quantity)

text \<open>
  C2 as stated (a product with quantity 0 gets a \<open>critical\<close> alert at every threshold,
  non-positive ones included) fails: the low-stock gate \<open>Quantity < threshold\<close> comes
  before the severity bands, so the seed router (quantity 0) gets no alert at threshold
  \<open>0\<close> or \<open>-3\<close>.
\<close>

theorem GenerateAlert_out_of_stock_counterexample:
  "Product.Quantity (seed_rows ! 14) = 0 \<and> GenerateAlert (seed_rows ! 14) 0 0 = None
     \<and> GenerateAlert (seed_rows ! 14) (- 3) 0 = None"
  by code_simp

text \<open>
  C2, amended. For a product with quantity 0: at every threshold above 0 (1 and 2
  included) \<open>GenerateAlert\<close> returns a \<open>critical\<close> alert "Product out of stock", the
  quantity-0 band being checked before the quantity-at-most-2 band; at a threshold of 0
  or below it returns no alert.
\<close>

theorem GenerateAlert_out_of_stock:
  assumes "Product.Quantity p = 0"
  shows "(0 < threshold \<longrightarrow>
           (\<exists>a. GenerateAlert p threshold now = Some a \<and> Severity a = ''critical''
                \<and> Message a = ''Product out of stock'')) \<and>
         (threshold \<le> 0 \<longrightarrow> GenerateAlert p threshold now = None)"
  using assms by (simp add: GenerateAlert_def IsLowStock_def)

theorem GenerateAlert_out_of_stock_witness:
  "(\<exists>a. GenerateAlert (seed_rows ! 14) 1 0 = Some a \<and> Severity a = ''critical''
       \<and> Message a = ''Product out of stock'') \<and>
   (\<exists>a. GenerateAlert (seed_rows ! 14) 2 0 = Some a \<and> Severity a = ''critical''
       \<and> Message a = ''Product out of stock'')"
  using GenerateAlert_out_of_stock[OF router_quantity, of 1 0]
    GenerateAlert_out_of_stock[OF router_quantity, of 2 0] by simp

text \<open>
  C9. Two calls of \<open>GenerateAlert\<close> on the same product and threshold, at clock readings
  \<open>t1\<close> and \<open>t2\<close>, both return no alert, or return two alerts that agree in product id,
  name, category, quantity, threshold, severity and message; the alerts differ in
  \<open>GeneratedAt\<close> at most.
\<close>

theorem GenerateAlert_deterministic:
  "(GenerateAlert p threshold t1 = None \<and> GenerateAlert p threshold t2 = None) \<or>
   (\<exists>a1 a2. GenerateAlert p threshold t1 = Some a1 \<and> GenerateAlert p threshold t2 = Some a2 \<and>
      ProductID a1 = ProductID a2 \<and> ProductAlert.Name a1 = ProductAlert.Name a2 \<and>
      ProductAlert.Category a1 = ProductAlert.Category a2 \<and>
      ProductAlert.Quantity a1 = ProductAlert.Quantity a2 \<and>
      Threshold a1 = Threshold a2 \<and> Severity a1 = Severity a2 \<and> Message a1 = Message a2 \<and>
      a1\<lparr>GeneratedAt := t2\<rparr> = a2)"
  by (simp add: GenerateAlert_def Let_def split: prod.splits)

text \<open>
  C10. For a product (its quantity is at least 0), the \<open>StockStatus\<close> of \<open>ToResponse\<close>
  is computed with the fixed thresholds 5 and 2: "out_of_stock" exactly at quantity 0,
  "critical" exactly at 1 or 2, "low" exactly from 3 to 5, "normal" exactly above 5. At
  quantity 5 the status is "low" although \<open>GenerateAlert\<close> gives no alert at threshold 5.
\<close>

theorem ToResponse_stock_status:
  assumes "0 \<le> Product.Quantity p"
  shows "(StockStatus (ToResponse p) = ''out_of_stock'' \<longleftrightarrow> Product.Quantity p = 0) \<and>
    (StockStatus (ToResponse p) = ''critical'' \<longleftrightarrow> 1 \<le> Product.Quantity p \<and> Product.Quantity p \<le> 2) \<and>
    (StockStatus (ToResponse p) = ''low'' \<longleftrightarrow> 3 \<le> Product.Quantity p \<and> Product.Quantity p \<le> 5) \<and>
    (StockStatus (ToResponse p) = ''normal'' \<longleftrightarrow> 5 < Product.Quantity p) \<and>
    (Product.Quantity p = 5 \<longrightarrow>
       StockStatus (ToResponse p) = ''low'' \<and> GenerateAlert p 5 now = None)"
  using assms by (auto simp add: ToResponse_def GetStockStatus_def GenerateAlert_def IsLowStock_def)

text \<open>The first seed row with its quantity set to 5.\<close>

theorem ToResponse_stock_status_witness:
  "StockStatus (ToResponse ((seed_rows ! 0)\<lparr>Product.Quantity := 5\<rparr>)) = ''low'' \<and>
   GenerateAlert ((seed_rows ! 0)\<lparr>Product.Quantity := 5\<rparr>) 5 0 = None"
  using ToResponse_stock_status[of "(seed_rows ! 0)\<lparr>Product.Quantity := 5\<rparr>" 0] by simp

section \<open>The concurrent generator\<close>

text \<open>
  C3. On every snapshot and threshold, \<open>GenerateAlertsWithConcurrency\<close> evaluates every
  product of the snapshot exactly once before it returns: the products evaluated are,
  as a multiset, the snapshot, so their count is its length, and the number of alerts
  returned is at most that length. The call does return: some schedule completes; no run
  of the goroutines is longer than \<open>5 * length products + 7\<close> steps, none panics, and
  in every state reached before the return some goroutine can take a step; at the
  return every worker has exited.
\<close>

theorem generate_evaluates_every_product:
  "(\<exists>sched' r'. GenerateAlertsWithConcurrency (Inr products) threshold sched' = Some r') \<and>
   (exec t sched (init products) = Some s \<longrightarrow>
      length sched \<le> 5 * length products + 7 \<and> \<not> panicked s \<and>
      (main s = Returned \<or> (\<exists>a s'. step t a s = Some s')) \<and>
      (main s = Returned \<longrightarrow> workers s = map Exited products \<and> mset (evaluated s) = mset products)) \<and>
   (GenerateAlertsWithConcurrency (Inr products) threshold sched = Some r \<longrightarrow>
      mset (ret_evaluated r) = mset products \<and>
      length (ret_evaluated r) = length products \<and>
      length (ret_alerts r) \<le> length products)"
proof (intro conjI impI)
  show "\<exists>sched' r'. GenerateAlertsWithConcurrency (Inr products) threshold sched' = Some r'"
    by (rule generate_returns)
next
  assume ex: "exec t sched (init products) = Some s"
  from exec_length[OF ex] show "length sched \<le> 5 * length products + 7"
    by (simp add: steps_left_init)
next
  assume ex: "exec t sched (init products) = Some s"
  from inv_panicked[OF inv_exec[OF inv_init ex]] show "\<not> panicked s" .
next
  assume ex: "exec t sched (init products) = Some s"
  from progress[OF inv_exec[OF inv_init ex]]
  show "main s = Returned \<or> (\<exists>a s'. step t a s = Some s')" by blast
next
  assume ex: "exec t sched (init products) = Some s" and ret: "main s = Returned"
  note R = returned_state[OF inv_exec[OF inv_init ex] ret]
  from workers_exited[OF R(4)] R(3) show "workers s = map Exited products" by simp
next
  assume ex: "exec t sched (init products) = Some s" and ret: "main s = Returned"
  from returned_state(1)[OF inv_exec[OF inv_init ex] ret]
  show "mset (evaluated s) = mset products" .
next
  assume G: "GenerateAlertsWithConcurrency (Inr products) threshold sched = Some r"
  from generate_result(2)[OF G] show "mset (ret_evaluated r) = mset products" .
next
  assume G: "GenerateAlertsWithConcurrency (Inr products) threshold sched = Some r"
  from mset_eq_length[OF generate_result(2)[OF G]]
  show "length (ret_evaluated r) = length products" .
next
  assume G: "GenerateAlertsWithConcurrency (Inr products) threshold sched = Some r"
  show "length (ret_alerts r) \<le> length products"
    by (simp add: generate_count[OF G])
qed

text \<open>The seed run: fifteen products evaluated, five alerts.\<close>

theorem generate_evaluates_every_product_witness:
  "GenerateAlertsWithConcurrency (Inr seed_rows) 5 seed_schedule = Some seed_outcome \<and>
   mset (ret_evaluated seed_outcome) = mset seed_rows \<and>
   length (ret_evaluated seed_outcome) = length seed_rows \<and>
   length (ret_alerts seed_outcome) \<le> length seed_rows"
  using generate_evaluates_every_product[where products = seed_rows and threshold = 5
      and sched = seed_schedule and r = seed_outcome]
    seed_run by simp

text \<open>
  C4. With a threshold of 0 or below, \<open>GenerateAlertsWithConcurrency\<close> behaves as with
  threshold 5: under the same fetch result, schedule and clock readings it returns the
  same outcome (same alerts, with the same \<open>Threshold\<close> field, same error).
\<close>

theorem generate_default_threshold:
  assumes "threshold \<le> 0"
  shows "GenerateAlertsWithConcurrency fetch threshold sched
       = GenerateAlertsWithConcurrency fetch 5 sched"
  using assms by (simp add: GenerateAlertsWithConcurrency_def)

text \<open>Thresholds \<open>0\<close> and \<open>-3\<close> on the seed rows give the outcome of threshold 5.\<close>

theorem generate_default_threshold_witness:
  "GenerateAlertsWithConcurrency (Inr seed_rows) 0 seed_schedule = Some seed_outcome \<and>
   GenerateAlertsWithConcurrency (Inr seed_rows) (- 3) seed_schedule = Some seed_outcome"
  using generate_default_threshold[of 0 "Inr seed_rows" seed_schedule]
    generate_default_threshold[of "- 3" "Inr seed_rows" seed_schedule] seed_run
  by simp

text \<open>
  C5. \<open>GenerateAlertsWithConcurrency\<close> returns an error exactly when the fetch of the
  products fails. Then it returns at once, whatever the schedule, with the store's
  message behind the prefix "failed to fetch products: ", no alert, and no product
  evaluated. A run of the evaluations never panics (and \<open>GenerateAlert\<close> has no error
  result).
\<close>

theorem generate_error_iff_fetch_fails:
  "(GenerateAlertsWithConcurrency fetch threshold sched = Some r \<longrightarrow>
      (ret_err r \<noteq> None) = (\<exists>e. fetch = Inl e)) \<and>
   GenerateAlertsWithConcurrency (Inl e) threshold sched
     = Some \<lparr> ret_alerts = [], ret_err = Some (''failed to fetch products: '' @ e),
              ret_evaluated = [] \<rparr> \<and>
   (exec t sched (init products) = Some s \<longrightarrow> \<not> panicked s)"
proof (intro conjI impI)
  assume G: "GenerateAlertsWithConcurrency fetch threshold sched = Some r"
  show "(ret_err r \<noteq> None) = (\<exists>e. fetch = Inl e)"
  proof (cases fetch)
    case (Inl e)
    with G show ?thesis by (auto simp: GenerateAlertsWithConcurrency_def)
  next
    case (Inr products)
    with G generate_result(1)[of products threshold sched r] show ?thesis by simp
  qed
next
  show "GenerateAlertsWithConcurrency (Inl e) threshold sched
     = Some \<lparr> ret_alerts = [], ret_err = Some (''failed to fetch products: '' @ e),
              ret_evaluated = [] \<rparr>"
    by (simp add: GenerateAlertsWithConcurrency_def)
next
  assume ex: "exec t sched (init products) = Some s"
  from inv_panicked[OF inv_exec[OF inv_init ex]] show "\<not> panicked s" .
qed

theorem generate_error_iff_fetch_fails_witness:
  "ret_err seed_outcome = None \<and>
   GenerateAlertsWithConcurrency (Inl ''connection refused'') 5 seed_schedule
     = Some \<lparr> ret_alerts = [], ret_err = Some ''failed to fetch products: connection refused'',
              ret_evaluated = [] \<rparr>"
  using generate_error_iff_fetch_fails[where fetch = "Inr seed_rows" and threshold = 5
      and sched = seed_schedule and r = seed_outcome and e = "''connection refused''"]
    seed_run by simp

text \<open>
  C6. If the product ids of the snapshot are distinct, the alerts returned by
  \<open>GenerateAlertsWithConcurrency\<close> have distinct product ids: at most one alert per
  product.
\<close>

theorem generate_one_alert_per_product:
  assumes "distinct (map Product.ID products)"
    and "GenerateAlertsWithConcurrency (Inr products) threshold sched = Some r"
  shows "distinct (map ProductID (ret_alerts r))"
proof -
  from assms(1) have "distinct (map Product.ID (filter (\<lambda>p. Product.Quantity p < (if threshold \<le> 0 then 5 else threshold)) products))"
    by (rule distinct_map_filter)
  with generate_ids[OF assms(2)] show ?thesis
    by (metis mset_eq_imp_distinct_iff)
qed

theorem generate_one_alert_per_product_witness:
  "distinct (map Product.ID seed_rows) \<and> distinct (map ProductID (ret_alerts seed_outcome))"
proof -
  have d: "distinct (map Product.ID seed_rows)" by (simp add: seed_ids)
  from generate_one_alert_per_product[OF d seed_run] d show ?thesis by simp
qed

text \<open>
  C7 as stated (on the seed snapshot with threshold 5 the alerts are those of the
  products with quantity below 5, "4 of them") fails in the count: the seed quantities
  3, 2, 4, 1 and 0 are below 5, and the run returns five alerts.
\<close>

theorem generate_seed_counterexample:
  "GenerateAlertsWithConcurrency (Inr seed_rows) 5 seed_schedule = Some seed_outcome \<and>
   map ProductAlert.Quantity (ret_alerts seed_outcome) = [3, 2, 4, 1, 0] \<and>
   length (ret_alerts seed_outcome) = 5 \<and> length (ret_alerts seed_outcome) \<noteq> 4"
  by code_simp

text \<open>
  C7, amended. On a snapshot with the quantities of the fifteen seed products (15, 8,
  25, 12, 20, 30, 45, 18, 10, 35, 3, 2, 4, 1, 0) and threshold 5,
  \<open>GenerateAlertsWithConcurrency\<close> returns alerts for exactly the products with quantity
  below 5, that is 5 of them, and has evaluated 15 products.
\<close>

theorem generate_seed:
  assumes q: "map Product.Quantity products = [15, 8, 25, 12, 20, 30, 45, 18, 10, 35, 3, 2, 4, 1, 0]"
    and G: "GenerateAlertsWithConcurrency (Inr products) 5 sched = Some r"
  shows "mset (map ProductID (ret_alerts r))
           = mset (map Product.ID (filter (\<lambda>p. Product.Quantity p < 5) products)) \<and>
         length (ret_alerts r) = 5 \<and> length (ret_evaluated r) = 15"
proof -
  have "length (filter (\<lambda>p. Product.Quantity p < 5) products)
      = length (filter (\<lambda>n. n < 5) (map Product.Quantity products))"
    by (simp add: filter_map comp_def)
  also have "\<dots> = 5" by (simp add: q)
  finally have five: "length (filter (\<lambda>p. Product.Quantity p < 5) products) = 5" .
  have "length products = length (map Product.Quantity products)" by simp
  also have "\<dots> = 15" by (simp only: q) simp
  finally have n: "length products = 15" .
  from generate_ids[OF G]
  have "mset (map ProductID (ret_alerts r))
           = mset (map Product.ID (filter (\<lambda>p. Product.Quantity p < 5) products))" by simp
  moreover from generate_count[OF G] five have "length (ret_alerts r) = 5" by simp
  moreover from mset_eq_length[OF generate_result(2)[OF G]] n
  have "length (ret_evaluated r) = 15" by simp
  ultimately show ?thesis by blast
qed

theorem generate_seed_witness:
  "mset (map ProductID (ret_alerts seed_outcome)) = mset [11, 12, 13, 14, 15] \<and>
   length (ret_alerts seed_outcome) = 5 \<and> length (ret_evaluated seed_outcome) = 15"
proof -
  have f: "map Product.ID (filter (\<lambda>p. Product.Quantity p < 5) seed_rows) = [11, 12, 13, 14, 15]"
    by code_simp
  from generate_seed[OF seed_quantities seed_run] show ?thesis by (simp only: f)
qed

text \<open>
  C8. An alert made by \<open>GenerateAlert\<close> carries the product's id, name, category and
  quantity and the threshold of the call. An alert returned by
  \<open>GenerateAlertsWithConcurrency\<close> carries these four fields of a product of the
  snapshot, and its threshold is the normalised one: 5 when the caller's threshold is 0
  or below, the caller's threshold otherwise.
\<close>

theorem alert_copies_product:
  "(GenerateAlert p threshold now = Some a \<longrightarrow>
      ProductID a = Product.ID p \<and> ProductAlert.Name a = Product.Name p \<and>
      ProductAlert.Category a = Product.Category p \<and>
      ProductAlert.Quantity a = Product.Quantity p \<and> Threshold a = threshold) \<and>
   (GenerateAlertsWithConcurrency (Inr products) threshold sched = Some r \<and> b \<in> set (ret_alerts r) \<longrightarrow>
      Threshold b = (if threshold \<le> 0 then 5 else threshold) \<and>
      (\<exists>q \<in> set products.
         ProductID b = Product.ID q \<and> ProductAlert.Name b = Product.Name q \<and>
         ProductAlert.Category b = Product.Category q \<and>
         ProductAlert.Quantity b = Product.Quantity q))"
proof -
  have one: "GenerateAlert p threshold now = Some a \<longrightarrow>
      ProductID a = Product.ID p \<and> ProductAlert.Name a = Product.Name p \<and>
      ProductAlert.Category a = Product.Category p \<and>
      ProductAlert.Quantity a = Product.Quantity p \<and> Threshold a = threshold"
    by (simp add: GenerateAlert_fields)
  have two: "GenerateAlertsWithConcurrency (Inr products) threshold sched = Some r \<and> b \<in> set (ret_alerts r) \<longrightarrow>
      Threshold b = (if threshold \<le> 0 then 5 else threshold) \<and>
      (\<exists>q \<in> set products.
         ProductID b = Product.ID q \<and> ProductAlert.Name b = Product.Name q \<and>
         ProductAlert.Category b = Product.Category q \<and>
         ProductAlert.Quantity b = Product.Quantity q)"
  proof
    assume A: "GenerateAlertsWithConcurrency (Inr products) threshold sched = Some r \<and> b \<in> set (ret_alerts r)"
    from generate_alert_source[of products threshold sched r b] A
    obtain q where q: "q \<in> set products"
      and g: "GenerateAlert q (if threshold \<le> 0 then 5 else threshold) 0 = Some (strip b)" by blast
    from GenerateAlert_fields(5)[OF g]
    have t: "Threshold b = (if threshold \<le> 0 then 5 else threshold)" by (simp only: strip_fields)
    from GenerateAlert_fields(1-4)[OF g]
    have "ProductID b = Product.ID q \<and> ProductAlert.Name b = Product.Name q \<and>
         ProductAlert.Category b = Product.Category q \<and>
         ProductAlert.Quantity b = Product.Quantity q"
      by (simp only: strip_fields ProductID_strip)
    with q t show "Threshold b = (if threshold \<le> 0 then 5 else threshold) \<and>
      (\<exists>q \<in> set products.
         ProductID b = Product.ID q \<and> ProductAlert.Name b = Product.Name q \<and>
         ProductAlert.Category b = Product.Category q \<and>
         ProductAlert.Quantity b = Product.Quantity q)" by blast
  qed
  from one two show ?thesis by (rule conjI)
qed

text \<open>The seed run at the caller's threshold \<open>-3\<close>: the alerts carry threshold 5.\<close>

theorem alert_copies_product_witness:
  "GenerateAlertsWithConcurrency (Inr seed_rows) (- 3) seed_schedule = Some seed_outcome \<and>
   hd (ret_alerts seed_outcome) \<in> set (ret_alerts seed_outcome) \<and>
   Threshold (hd (ret_alerts seed_outcome)) = 5"
proof -
  have G: "GenerateAlertsWithConcurrency (Inr seed_rows) (- 3) seed_schedule = Some seed_outcome"
    by code_simp
  have m: "hd (ret_alerts seed_outcome) \<in> set (ret_alerts seed_outcome)"
    by code_simp
  from alert_copies_product[where products = seed_rows and threshold = "- 3"
      and sched = seed_schedule and r = seed_outcome and b = "hd (ret_alerts seed_outcome)"] G m
  show ?thesis by simp
qed

end
